theory Spec2Isabelle
  imports Main "HOL-Library.Word"
begin

section \<open>Data model\<close>

text \<open>
  The recipe lives in package \<open>plugin\<close> of \<open>client.go\<close>: \<open>Work\<close>, \<open>Worker\<close> and the
  process-local registry \<open>WorkerList\<close>. Go's \<open>int\<close> is modelled as \<open>int\<close>: the code only
  compares it and uses it as a slice bound, so no arithmetic can wrap. A \<open>*Worker\<close> is a
  \<open>Worker option\<close> (\<open>None\<close> is the nil pointer), and a run-time panic is a value of
  type \<open>panic\<close>. The mutexes are not modelled: every method is taken as one sequential
  step.
\<close>

datatype panic = NilDereference | IndexOutOfRange

text \<open>
  Modelled from the spec: the \<open>Znode\<close> struct (Node Identity) is declared outside
  \<open>client.go\<close>. It carries the absolute path, which is its identity, and the opaque data
  payload.
\<close>

record Znode =
  Path :: string
  Data :: "8 word list"

text \<open>
  Modelled from the spec: \<open>NewZnode(path)\<close> is declared outside \<open>client.go\<close>; it builds
  the identity for a path with no payload.
\<close>

definition NewZnode :: "string \<Rightarrow> Znode" where
  "NewZnode path = \<lparr>Path = path, Data = []\<rparr>"

text \<open>The connection handle \<open>*Client\<close>; the store it talks to is threaded separately.\<close>

datatype Client = Client nat

text \<open>
  \<open>zk.FlagEphemeral\<close> is a constant of the go-zookeeper library (the \<open>int32\<close> create flag
  with value 1; 0 is a persistent node).
\<close>

definition FlagEphemeral :: "32 word" where
  "FlagEphemeral = 1"

text \<open>
  Modelled from the spec: the \<open>ChildCache\<close> struct is declared outside \<open>client.go\<close>. It has
  the owning path, the creation flags applied to new children, and the ordered local
  collection of known children.
\<close>

record ChildCache =
  client :: Client
  cc_path :: string
  CreateFlags :: "32 word"
  children :: "Znode list"

text \<open>
  Modelled from the spec: \<open>NewChildCache(client, path)\<close> binds a cache to a path without
  any network call; nothing is known about the children yet and the flags are Go's zero
  value.
\<close>

definition NewChildCache :: "Client \<Rightarrow> string \<Rightarrow> ChildCache" where
  "NewChildCache c path = \<lparr>client = c, cc_path = path, CreateFlags = 0, children = []\<rparr>"

text \<open>\<open>Work\<close> and \<open>Worker\<close> embed a \<open>Znode\<close> and own a \<open>*ChildCache\<close>.\<close>

record Work = Znode +
  WorkChildren :: ChildCache

record Worker = Znode +
  Children :: ChildCache

definition Work_Id :: "Work \<Rightarrow> string" where
  "Work_Id w = Path w"

definition Worker_Id :: "Worker \<Rightarrow> string" where
  "Worker_Id w = Path w"

definition NewWork :: "Client \<Rightarrow> string \<Rightarrow> Work" where
  "NewWork c path =
     (let n = NewZnode path;
          cc = NewChildCache c path;
          cc = cc\<lparr>CreateFlags := FlagEphemeral\<rparr>
      in \<lparr>Path = Path n, Data = Data n, WorkChildren = cc\<rparr>)"

definition NewWorker :: "Client \<Rightarrow> string \<Rightarrow> Worker" where
  "NewWorker c path =
     (let n = NewZnode path;
          cc = NewChildCache c path;
          cc = cc\<lparr>CreateFlags := FlagEphemeral\<rparr>
      in \<lparr>Path = Path n, Data = Data n, Children = cc\<rparr>)"

section \<open>The node store and the child cache\<close>

text \<open>
  Modelled from the spec: the Node Store capability (section 6) is the external
  coordination service. The store holds, per path, the data and the creation flags of the
  node. A call may fail because the session is disconnected; which calls do is not up to
  the caller, so the store carries a schedule \<open>outages\<close> with one entry per future
  call (\<open>True\<close>: this call fails with \<open>Disconnected\<close>); an exhausted schedule means no
  further outage.
\<close>

datatype StoreError = NodeExists | Disconnected

record NodeStore =
  nodes :: "string \<rightharpoonup> 8 word list \<times> 32 word"
  outages :: "bool list"

fun next_outage :: "bool list \<Rightarrow> bool \<times> bool list" where
  "next_outage [] = (False, [])"
| "next_outage (b # bs) = (b, bs)"

text \<open>
  Modelled from the spec: \<open>create(path, data, creationFlags) -> (path, error)\<close>; a create
  of an existing child is the conflict \<open>NodeExists\<close>.
\<close>

definition store_create ::
  "NodeStore \<Rightarrow> string \<Rightarrow> 8 word list \<Rightarrow> 32 word \<Rightarrow> (string \<times> StoreError option) \<times> NodeStore" where
  "store_create st path data flags =
     (case next_outage (outages st) of
        (down, rest) \<Rightarrow>
          if down then (([], Some Disconnected), st\<lparr>outages := rest\<rparr>)
          else if nodes st path \<noteq> None then (([], Some NodeExists), st\<lparr>outages := rest\<rparr>)
          else ((path, None), st\<lparr>nodes := (nodes st)(path \<mapsto> (data, flags)), outages := rest\<rparr>))"

text \<open>
  Modelled from the spec: \<open>delete(path) -> error\<close>, idempotent on "already absent".
\<close>

definition store_delete :: "NodeStore \<Rightarrow> string \<Rightarrow> StoreError option \<times> NodeStore" where
  "store_delete st path =
     (case next_outage (outages st) of
        (down, rest) \<Rightarrow>
          if down then (Some Disconnected, st\<lparr>outages := rest\<rparr>)
          else (None, st\<lparr>nodes := (nodes st)(path := None), outages := rest\<rparr>))"

text \<open>
  The error a cache mutator returns: the store error, unchanged in kind, annotated with
  the path involved.
\<close>

type_synonym CacheError = "StoreError \<times> string"

text \<open>
  Modelled from the spec: \<open>ChildCache.Add(node)\<close> (section 4.1) issues a create against the
  store with the cache's creation flags; on success it inserts the node at the end of the
  local ordered set, on failure the local set is left unchanged.
\<close>

definition ChildCache_Add ::
  "ChildCache \<Rightarrow> Znode \<Rightarrow> NodeStore \<Rightarrow> CacheError option \<times> ChildCache \<times> NodeStore" where
  "ChildCache_Add cc node st =
     (case store_create st (Path node) (Data node) (CreateFlags cc) of
        ((p, Some e), st') \<Rightarrow> (Some (e, Path node), cc, st')
      | ((p, None), st') \<Rightarrow> (None, cc\<lparr>children := children cc @ [node]\<rparr>, st'))"

text \<open>
  Removal of the entry that matches a path. The local set holds at most one entry per
  path (section 3); the first match is the one removed.
\<close>

fun remove_path :: "string \<Rightarrow> Znode list \<Rightarrow> Znode list" where
  "remove_path p [] = []"
| "remove_path p (x # xs) = (if Path x = p then xs else x # remove_path p xs)"

text \<open>
  Modelled from the spec: \<open>ChildCache.Remove(node)\<close> (section 4.1) issues a delete against
  the store for the node's path; on success it removes the matching entry (by path) from
  the local set if present. It fails when the remote delete fails for a reason other than
  "already absent", and then leaves the local set unchanged.
\<close>

definition ChildCache_Remove ::
  "ChildCache \<Rightarrow> Znode \<Rightarrow> NodeStore \<Rightarrow> CacheError option \<times> ChildCache \<times> NodeStore" where
  "ChildCache_Remove cc node st =
     (case store_delete st (Path node) of
        (Some e, st') \<Rightarrow> (Some (e, Path node), cc, st')
      | (None, st') \<Rightarrow> (None, cc\<lparr>children := remove_path (Path node) (children cc)\<rparr>, st'))"

text \<open>
  Modelled from the spec: \<open>ChildCache.Size()\<close> is the current count of the local ordered
  set and \<open>ChildCache.ToSlice()\<close> an ordered copy of it; neither touches the store.
\<close>

definition ChildCache_Size :: "ChildCache \<Rightarrow> int" where
  "ChildCache_Size cc = int (length (children cc))"

definition ChildCache_ToSlice :: "ChildCache \<Rightarrow> Znode list" where
  "ChildCache_ToSlice cc = children cc"

section \<open>Shifting work\<close>

text \<open>
  The body of the \<open>range\<close> loop of \<open>ShiftWork\<close>: the error of \<open>Children.Remove\<close> is
  looked at by an empty \<open>if\<close> and the node is appended to \<open>removed\<close> in every case.
\<close>

fun ShiftWork_loop ::
  "Znode list \<Rightarrow> Znode list \<Rightarrow> ChildCache \<Rightarrow> NodeStore \<Rightarrow> Znode list \<times> ChildCache \<times> NodeStore" where
  "ShiftWork_loop [] removed cc st = (removed, cc, st)"
| "ShiftWork_loop (v # vs) removed cc st =
     (case ChildCache_Remove cc v st of
        (err, cc', st') \<Rightarrow> ShiftWork_loop vs (removed @ [v]) cc' st')"

definition ShiftWork :: "Worker \<Rightarrow> int \<Rightarrow> NodeStore \<Rightarrow> Znode list \<times> Worker \<times> NodeStore" where
  "ShiftWork w amount st =
     (let removed = [];
          size = ChildCache_Size (Children w)
      in if size \<ge> amount \<and> amount > 0
         then (case ShiftWork_loop (take (nat amount) (ChildCache_ToSlice (Children w)))
                      removed (Children w) st of
                 (removed', cc', st') \<Rightarrow> (removed', w\<lparr>Children := cc'\<rparr>, st'))
         else (removed, w, st))"

text \<open>\<open>UnshiftWork\<close> has no result; the model returns the worker and the store it leaves.\<close>

fun UnshiftWork_loop :: "Znode list \<Rightarrow> ChildCache \<Rightarrow> NodeStore \<Rightarrow> ChildCache \<times> NodeStore" where
  "UnshiftWork_loop [] cc st = (cc, st)"
| "UnshiftWork_loop (n # ns) cc st =
     (case ChildCache_Add cc n st of
        (err, cc', st') \<Rightarrow> UnshiftWork_loop ns cc' st')"

definition UnshiftWork :: "Worker \<Rightarrow> Znode list \<Rightarrow> NodeStore \<Rightarrow> Worker \<times> NodeStore" where
  "UnshiftWork w ns st =
     (case UnshiftWork_loop ns (Children w) st of
        (cc', st') \<Rightarrow> (w\<lparr>Children := cc'\<rparr>, st'))"

subsection \<open>Observers used to state the properties\<close>

text \<open>
  The errors the loops see and drop, in call order: \<open>Remove_errors\<close> for the
  \<open>Children.Remove\<close> calls of \<open>ShiftWork\<close>, \<open>Add_errors\<close> for the \<open>Children.Add\<close> calls of
  \<open>UnshiftWork\<close>.
\<close>

fun Remove_errors :: "Znode list \<Rightarrow> ChildCache \<Rightarrow> NodeStore \<Rightarrow> CacheError option list" where
  "Remove_errors [] cc st = []"
| "Remove_errors (v # vs) cc st =
     (case ChildCache_Remove cc v st of
        (err, cc', st') \<Rightarrow> err # Remove_errors vs cc' st')"

fun Add_errors :: "Znode list \<Rightarrow> ChildCache \<Rightarrow> NodeStore \<Rightarrow> CacheError option list" where
  "Add_errors [] cc st = []"
| "Add_errors (n # ns) cc st =
     (case ChildCache_Add cc n st of
        (err, cc', st') \<Rightarrow> err # Add_errors ns cc' st')"

text \<open>The entries of a run whose call returned no error.\<close>

definition succeeded :: "Znode list \<Rightarrow> CacheError option list \<Rightarrow> Znode list" where
  "succeeded vs errs = map fst (filter (\<lambda>(v, e). e = None) (zip vs errs))"

text \<open>
  The nodes \<open>ShiftWork\<close> selects, and the errors of its \<open>Children.Remove\<close> calls.
\<close>

definition ShiftWork_selected :: "Worker \<Rightarrow> int \<Rightarrow> Znode list" where
  "ShiftWork_selected w amount =
     (if ChildCache_Size (Children w) \<ge> amount \<and> amount > 0
      then take (nat amount) (ChildCache_ToSlice (Children w)) else [])"

definition ShiftWork_errors :: "Worker \<Rightarrow> int \<Rightarrow> NodeStore \<Rightarrow> CacheError option list" where
  "ShiftWork_errors w amount st = Remove_errors (ShiftWork_selected w amount) (Children w) st"

definition UnshiftWork_errors :: "Worker \<Rightarrow> Znode list \<Rightarrow> NodeStore \<Rightarrow> CacheError option list" where
  "UnshiftWork_errors w ns st = Add_errors ns (Children w) st"

text \<open>
  The spec's reading of a non-positive amount (section 7): the call is rejected as
  \<open>InvalidInput\<close>; any other amount is the code's result.
\<close>

datatype InputError = InvalidInput

definition ShiftWork_spec ::
  "Worker \<Rightarrow> int \<Rightarrow> NodeStore \<Rightarrow> InputError + Znode list \<times> Worker \<times> NodeStore" where
  "ShiftWork_spec w amount st =
     (if amount \<le> 0 then Inl InvalidInput else Inr (ShiftWork w amount st))"

section \<open>The worker registry\<close>

record WorkerList =
  workers :: "Worker option list"

definition NewWorkerList :: WorkerList where
  "NewWorkerList = \<lparr>workers = []\<rparr>"

text \<open>
  \<open>IndexOf\<close> scans the whole slice and overwrites \<open>index\<close> at every match, so it returns
  the last matching position. \<open>v.Id()\<close> and \<open>worker.Id()\<close> dereference their pointer.
\<close>

fun IndexOf_loop ::
  "Worker option list \<Rightarrow> Worker option \<Rightarrow> nat \<Rightarrow> nat option \<Rightarrow> panic + nat option" where
  "IndexOf_loop [] worker i index = Inr index"
| "IndexOf_loop (v # vs) worker i index =
     (case v of
        None \<Rightarrow> Inl NilDereference
      | Some v' \<Rightarrow>
          (case worker of
             None \<Rightarrow> Inl NilDereference
           | Some w' \<Rightarrow>
               IndexOf_loop vs worker (Suc i)
                 (if Worker_Id v' = Worker_Id w' then Some i else index)))"

definition IndexOf :: "WorkerList \<Rightarrow> Worker option \<Rightarrow> panic + nat option" where
  "IndexOf l worker = IndexOf_loop (workers l) worker 0 None"

definition WorkerList_Add :: "WorkerList \<Rightarrow> Worker option \<Rightarrow> panic + bool \<times> WorkerList" where
  "WorkerList_Add l worker =
     (case IndexOf l worker of
        Inl p \<Rightarrow> Inl p
      | Inr None \<Rightarrow> Inr (True, l\<lparr>workers := workers l @ [worker]\<rparr>)
      | Inr (Some i) \<Rightarrow> Inr (False, l))"

definition WorkerList_Remove :: "WorkerList \<Rightarrow> Worker option \<Rightarrow> panic + bool \<times> WorkerList" where
  "WorkerList_Remove l worker =
     (case IndexOf l worker of
        Inl p \<Rightarrow> Inl p
      | Inr (Some i) \<Rightarrow>
          Inr (True, l\<lparr>workers := take i (workers l) @ drop (i + 1) (workers l)\<rparr>)
      | Inr None \<Rightarrow> Inr (False, l))"

definition WorkerList_Size :: "WorkerList \<Rightarrow> int" where
  "WorkerList_Size l = int (length (workers l))"

text \<open>
  \<open>At\<close> guards the read with \<open>len(l.workers) > index\<close> only; Go's slice indexing panics
  on a negative index.
\<close>

definition At :: "WorkerList \<Rightarrow> int \<Rightarrow> panic + Worker option" where
  "At l index =
     (if int (length (workers l)) > index
      then (if index < 0 then Inl IndexOutOfRange else Inr (workers l ! nat index))
      else Inr None)"

section \<open>Histories of a cache and example values\<close>

text \<open>
  A history of a child cache: the \<open>Children.Add\<close> and \<open>Children.Remove\<close> calls made on it,
  in order, whatever their outcome.
\<close>

datatype CacheOp = OpAdd Znode | OpRemove Znode

fun run_ops :: "CacheOp list \<Rightarrow> ChildCache \<Rightarrow> NodeStore \<Rightarrow> ChildCache \<times> NodeStore" where
  "run_ops [] cc st = (cc, st)"
| "run_ops (OpAdd n # ops) cc st =
     (case ChildCache_Add cc n st of (err, cc', st') \<Rightarrow> run_ops ops cc' st')"
| "run_ops (OpRemove n # ops) cc st =
     (case ChildCache_Remove cc n st of (err, cc', st') \<Rightarrow> run_ops ops cc' st')"

text \<open>
  The scenario of the spec (section 8): the worker at \<open>/workers/w1\<close> with the three
  children \<open>work-1\<close>, \<open>work-2\<close>, \<open>work-3\<close>, a store that holds them, and the same store
  about to be disconnected for one call.
\<close>

definition ex_work1 :: Znode where
  "ex_work1 = NewZnode ''/workers/w1/work-1''"

definition ex_work2 :: Znode where
  "ex_work2 = NewZnode ''/workers/w1/work-2''"

definition ex_work3 :: Znode where
  "ex_work3 = NewZnode ''/workers/w1/work-3''"

definition ex_worker :: Worker where
  "ex_worker =
     (let w = NewWorker (Client 0) ''/workers/w1''
      in w\<lparr>Children := (Children w)\<lparr>children := [ex_work1, ex_work2, ex_work3]\<rparr>\<rparr>)"

definition ex_store :: NodeStore where
  "ex_store =
     \<lparr>nodes = [Path ex_work1 \<mapsto> ([], FlagEphemeral),
                Path ex_work2 \<mapsto> ([], FlagEphemeral),
                Path ex_work3 \<mapsto> ([], FlagEphemeral)],
      outages = []\<rparr>"

definition ex_store_down :: NodeStore where
  "ex_store_down = ex_store\<lparr>outages := [True]\<rparr>"

definition ex_worker2 :: Worker where
  "ex_worker2 = NewWorker (Client 0) ''/workers/w2''"

definition ex_list :: WorkerList where
  "ex_list = \<lparr>workers = [Some ex_worker, Some ex_worker2]\<rparr>"

section \<open>Properties of the worker registry\<close>

lemmas ex_defs =
  ex_work1_def ex_work2_def ex_work3_def ex_worker_def ex_store_def ex_store_down_def
  ex_worker2_def ex_list_def NewWorker_def NewZnode_def NewChildCache_def

text \<open>
  On a registry without nil entries and a non-nil worker the scan never panics. It leaves
  \<open>index\<close> as it was when no entry matches, and otherwise reports the last match.
\<close>

lemma IndexOf_loop_absent:
  "Worker_Id w \<notin> Worker_Id ` set ws \<Longrightarrow>
     IndexOf_loop (map Some ws) (Some w) i index = Inr index"
  by (induction ws arbitrary: i index) auto

lemma IndexOf_loop_present:
  "Worker_Id w \<in> Worker_Id ` set ws \<Longrightarrow>
     \<exists>k < length ws. Worker_Id (ws ! k) = Worker_Id w \<and>
        (\<forall>j. k < j \<and> j < length ws \<longrightarrow> Worker_Id (ws ! j) \<noteq> Worker_Id w) \<and>
        IndexOf_loop (map Some ws) (Some w) i index = Inr (Some (i + k))"
proof (induction ws arbitrary: i index)
  case Nil
  then show ?case by simp
next
  case (Cons v vs)
  show ?case
  proof (cases "Worker_Id w \<in> Worker_Id ` set vs")
    case True
    from Cons.IH [OF True, of "Suc i" "if Worker_Id v = Worker_Id w then Some i else index"]
    obtain k where k: "k < length vs" "Worker_Id (vs ! k) = Worker_Id w"
      "\<forall>j. k < j \<and> j < length vs \<longrightarrow> Worker_Id (vs ! j) \<noteq> Worker_Id w"
      "IndexOf_loop (map Some vs) (Some w) (Suc i)
         (if Worker_Id v = Worker_Id w then Some i else index) = Inr (Some (Suc i + k))"
      by blast
    have "\<forall>j. Suc k < j \<and> j < length (v # vs) \<longrightarrow> Worker_Id ((v # vs) ! j) \<noteq> Worker_Id w"
    proof (intro allI impI)
      fix j assume j: "Suc k < j \<and> j < length (v # vs)"
      then obtain j' where j': "j = Suc j'" by (cases j) auto
      with j k(3) show "Worker_Id ((v # vs) ! j) \<noteq> Worker_Id w" by auto
    qed
    with k show ?thesis
      by (intro exI [of _ "Suc k"]) auto
  next
    case False
    with Cons.prems have v: "Worker_Id v = Worker_Id w" by auto
    have "\<forall>j. 0 < j \<and> j < length (v # vs) \<longrightarrow> Worker_Id ((v # vs) ! j) \<noteq> Worker_Id w"
    proof (intro allI impI)
      fix j assume j: "0 < j \<and> j < length (v # vs)"
      then obtain j' where j': "j = Suc j'" by (cases j) auto
      with j have "vs ! j' \<in> set vs" by simp
      then have "Worker_Id (vs ! j') \<in> Worker_Id ` set vs" by (rule imageI)
      with False have "Worker_Id (vs ! j') \<noteq> Worker_Id w" by metis
      with j' show "Worker_Id ((v # vs) ! j) \<noteq> Worker_Id w" by simp
    qed
    with v False show ?thesis
      by (intro exI [of _ 0]) (simp add: IndexOf_loop_absent)
  qed
qed

text \<open>
  An index at or beyond the length is answered with nil.
\<close>

lemma At_beyond_end: "int (length (workers l)) \<le> index \<Longrightarrow> At l index = Inr None"
  by (simp add: At_def)

lemma At_in_range:
  "0 \<le> index \<Longrightarrow> index < int (length (workers l)) \<Longrightarrow> At l index = Inr (workers l ! nat index)"
  by (simp add: At_def)

text \<open>
  C6. Claim: for an index out of range, negative ones included, \<open>At\<close> returns nil and
  never panics. The code checks the upper bound only: at index \<open>-1\<close> the guard
  \<open>len(l.workers) > index\<close> holds and the slice read panics.
\<close>

theorem At_negative_index_panics: "At ex_list (- 1) = Inl IndexOutOfRange"
  by (simp add: At_def ex_list_def)

text \<open>
  C7. \<open>WorkerList.Add\<close> appends the worker and returns true exactly when no entry has the
  worker's identity; otherwise it returns false and the registry is unchanged.
\<close>

theorem WorkerList_Add_unique:
  assumes "workers l = map Some ws"
  shows "WorkerList_Add l (Some w) =
           (if Worker_Id w \<in> Worker_Id ` set ws then Inr (False, l)
            else Inr (True, l\<lparr>workers := map Some (ws @ [w])\<rparr>))"
proof (cases "Worker_Id w \<in> Worker_Id ` set ws")
  case True
  from IndexOf_loop_present [OF True, of 0 None] assms show ?thesis
    using True by (auto simp: WorkerList_Add_def IndexOf_def)
next
  case False
  from IndexOf_loop_absent [OF False, of 0 None] assms show ?thesis
    using False by (auto simp: WorkerList_Add_def IndexOf_def)
qed

theorem WorkerList_Add_unique_witness:
  "workers ex_list = map Some [ex_worker, ex_worker2] \<and>
   WorkerList_Add ex_list (Some ex_worker2) = Inr (False, ex_list) \<and>
   workers NewWorkerList = map Some [] \<and>
   WorkerList_Add NewWorkerList (Some ex_worker2) = Inr (True, \<lparr>workers = [Some ex_worker2]\<rparr>)"
proof -
  have h1: "workers ex_list = map Some [ex_worker, ex_worker2]"
    by (simp add: ex_list_def)
  have h2: "workers NewWorkerList = map Some []"
    by (simp add: NewWorkerList_def)
  show ?thesis
    using h1 h2 WorkerList_Add_unique [OF h1, of ex_worker2]
      WorkerList_Add_unique [OF h2, of ex_worker2]
    by (simp add: NewWorkerList_def)
qed

text \<open>
  C8. \<open>WorkerList.Remove\<close> returns false and leaves the registry unchanged when no entry
  has the worker's identity; otherwise it returns true and the registry is the old one
  with one matching position cut out, the other entries in their order.
\<close>

theorem WorkerList_Remove_entry:
  assumes "workers l = map Some ws"
  shows "(Worker_Id w \<notin> Worker_Id ` set ws \<longrightarrow> WorkerList_Remove l (Some w) = Inr (False, l)) \<and>
         (Worker_Id w \<in> Worker_Id ` set ws \<longrightarrow>
            (\<exists>i < length ws. Worker_Id (ws ! i) = Worker_Id w \<and>
               WorkerList_Remove l (Some w) =
                 Inr (True, l\<lparr>workers := map Some (take i ws @ drop (Suc i) ws)\<rparr>)))"
proof (intro conjI impI)
  assume a: "Worker_Id w \<notin> Worker_Id ` set ws"
  from IndexOf_loop_absent [OF a, of 0 None] assms
  show "WorkerList_Remove l (Some w) = Inr (False, l)"
    by (simp add: WorkerList_Remove_def IndexOf_def)
next
  assume p: "Worker_Id w \<in> Worker_Id ` set ws"
  from IndexOf_loop_present [OF p, of 0 None]
  obtain k where k: "k < length ws" "Worker_Id (ws ! k) = Worker_Id w"
    "IndexOf_loop (map Some ws) (Some w) 0 None = Inr (Some k)"
    by auto
  from k(3) assms have "WorkerList_Remove l (Some w) =
      Inr (True, l\<lparr>workers := map Some (take k ws @ drop (Suc k) ws)\<rparr>)"
    by (simp add: WorkerList_Remove_def IndexOf_def take_map drop_map)
  with k(1,2) show "\<exists>i < length ws. Worker_Id (ws ! i) = Worker_Id w \<and>
               WorkerList_Remove l (Some w) =
                 Inr (True, l\<lparr>workers := map Some (take i ws @ drop (Suc i) ws)\<rparr>)"
    by blast
qed

theorem WorkerList_Remove_entry_witness:
  "workers ex_list = map Some [ex_worker, ex_worker2] \<and>
   WorkerList_Remove ex_list (Some ex_worker) = Inr (True, \<lparr>workers = [Some ex_worker2]\<rparr>) \<and>
   WorkerList_Remove ex_list (Some (NewWorker (Client 0) ''/workers/w3'')) = Inr (False, ex_list)"
proof -
  let ?ws = "[ex_worker, ex_worker2]"
  let ?w3 = "NewWorker (Client 0) ''/workers/w3''"
  have h: "workers ex_list = map Some ?ws" by (simp add: ex_list_def)
  have p: "Worker_Id ex_worker \<in> Worker_Id ` set ?ws" by simp
  have a: "Worker_Id ?w3 \<notin> Worker_Id ` set ?ws"
    by (simp add: Worker_Id_def ex_defs)
  have d: "Worker_Id ex_worker2 \<noteq> Worker_Id ex_worker"
    by (simp add: Worker_Id_def ex_defs)
  from WorkerList_Remove_entry [OF h, of ex_worker] p
  obtain i where i: "i < length ?ws" "Worker_Id (?ws ! i) = Worker_Id ex_worker"
    "WorkerList_Remove ex_list (Some ex_worker) =
       Inr (True, ex_list\<lparr>workers := map Some (take i ?ws @ drop (Suc i) ?ws)\<rparr>)"
    by blast
  from i(1) have "i = 0 \<or> i = 1" by auto
  with i(2) d have "i = 0" by auto
  with i(3) have r1: "WorkerList_Remove ex_list (Some ex_worker) =
      Inr (True, \<lparr>workers = [Some ex_worker2]\<rparr>)"
    by (simp add: ex_list_def)
  from WorkerList_Remove_entry [OF h, of ?w3] a
  have r2: "WorkerList_Remove ex_list (Some ?w3) = Inr (False, ex_list)" by blast
  from h r1 r2 show ?thesis by simp
qed

section \<open>Properties of shifting work\<close>

lemmas run_defs =
  ShiftWork_def UnshiftWork_def ShiftWork_errors_def UnshiftWork_errors_def ShiftWork_selected_def
  ChildCache_Size_def ChildCache_ToSlice_def ChildCache_Remove_def ChildCache_Add_def
  store_delete_def store_create_def

text \<open>
  The loops: what \<open>ShiftWork\<close> accumulates, how many errors each loop sees, what the cache
  and the store look like after a run of successful removals, and what \<open>UnshiftWork\<close>
  leaves in the cache.
\<close>

lemma ShiftWork_loop_removed:
  "fst (ShiftWork_loop vs removed cc st) = removed @ vs"
  by (induction vs arbitrary: removed cc st) (auto split: prod.splits)

lemma Remove_errors_length: "length (Remove_errors vs cc st) = length vs"
  by (induction vs arbitrary: cc st) (auto split: prod.splits)

lemma Add_errors_length: "length (Add_errors ns cc st) = length ns"
  by (induction ns arbitrary: cc st) (auto split: prod.splits)

lemma ChildCache_Remove_ok:
  "ChildCache_Remove cc v st = (None, cc', st') \<Longrightarrow>
     children cc' = remove_path (Path v) (children cc) \<and> nodes st' = (nodes st)(Path v := None)"
  by (auto simp: ChildCache_Remove_def store_delete_def split: prod.splits if_splits option.splits)

lemma ShiftWork_loop_all_ok:
  "\<forall>e\<in>set (Remove_errors vs cc st). e = None \<Longrightarrow> children cc = vs @ rest \<Longrightarrow>
   ShiftWork_loop vs removed cc st = (removed', cc', st') \<Longrightarrow>
     children cc' = rest \<and> nodes st' = (\<lambda>p. if p \<in> Path ` set vs then None else nodes st p)"
proof (induction vs arbitrary: removed cc st)
  case Nil
  then show ?case by auto
next
  case (Cons v vs)
  obtain err cc1 st1 where r: "ChildCache_Remove cc v st = (err, cc1, st1)"
    by (cases "ChildCache_Remove cc v st") auto
  with Cons.prems(1) have err: "err = None" by simp
  from r err have c1: "children cc1 = vs @ rest" and n1: "nodes st1 = (nodes st)(Path v := None)"
    using ChildCache_Remove_ok [of cc v st cc1 st1] Cons.prems(2) by auto
  from Cons.prems(1) r have e1: "\<forall>e\<in>set (Remove_errors vs cc1 st1). e = None" by simp
  from Cons.prems(3) r have l1: "ShiftWork_loop vs (removed @ [v]) cc1 st1 = (removed', cc', st')" by simp
  from Cons.IH [OF e1 c1 l1] n1 show ?case by auto
qed

lemma ShiftWork_returns_selected: "fst (ShiftWork w amount st) = ShiftWork_selected w amount"
  using ShiftWork_loop_removed [of "take (nat amount) (ChildCache_ToSlice (Children w))" "[]" "Children w" st]
  by (auto simp: ShiftWork_def ShiftWork_selected_def Let_def split: prod.splits)

lemma succeeded_Cons:
  "succeeded (v # vs) (e # es) = (if e = None then v # succeeded vs es else succeeded vs es)"
  by (simp add: succeeded_def)

lemma succeeded_Nil: "succeeded [] es = []"
  by (simp add: succeeded_def)

lemma succeeded_all:
  "length es = length vs \<Longrightarrow> \<forall>e\<in>set es. e = None \<Longrightarrow> succeeded vs es = vs"
  by (induction vs es rule: list_induct2') (auto simp: succeeded_Cons succeeded_Nil)

lemma ChildCache_Add_children:
  "ChildCache_Add cc n st = (err, cc', st') \<Longrightarrow>
     children cc' = (if err = None then children cc @ [n] else children cc)"
  by (auto simp: ChildCache_Add_def split: prod.splits option.splits)

lemma UnshiftWork_loop_children:
  "children (fst (UnshiftWork_loop ns cc st)) = children cc @ succeeded ns (Add_errors ns cc st)"
proof (induction ns arbitrary: cc st)
  case Nil
  then show ?case by (simp add: succeeded_Nil)
next
  case (Cons n ns)
  obtain err cc1 st1 where a: "ChildCache_Add cc n st = (err, cc1, st1)"
    by (cases "ChildCache_Add cc n st") auto
  from ChildCache_Add_children [OF a] Cons.IH [of cc1 st1] a show ?case
    by (simp add: succeeded_Cons)
qed

lemma ChildCache_Add_flags:
  "ChildCache_Add cc n st = (err, cc', st') \<Longrightarrow> CreateFlags cc' = CreateFlags cc"
  by (auto simp: ChildCache_Add_def split: prod.splits option.splits)

lemma ChildCache_Remove_flags:
  "ChildCache_Remove cc n st = (err, cc', st') \<Longrightarrow> CreateFlags cc' = CreateFlags cc"
  by (auto simp: ChildCache_Remove_def split: prod.splits option.splits)

lemma run_ops_flags: "run_ops ops cc st = (cc', st') \<Longrightarrow> CreateFlags cc' = CreateFlags cc"
proof (induction ops cc st rule: run_ops.induct)
  case (1 cc st)
  then show ?case by simp
next
  case (2 n ops cc st)
  then show ?case by (auto split: prod.splits dest: ChildCache_Add_flags)
next
  case (3 n ops cc st)
  then show ?case by (auto split: prod.splits dest: ChildCache_Remove_flags)
qed

lemma ChildCache_Add_creates:
  "ChildCache_Add cc n st = (None, cc', st') \<Longrightarrow>
     nodes st' (Path n) = Some (Data n, CreateFlags cc)"
  by (auto simp: ChildCache_Add_def store_create_def split: prod.splits option.splits if_splits)

text \<open>
  While the store has no outage scheduled every removal succeeds, and so does every
  addition of nodes with pairwise different paths that the store does not hold. Hence a
  shift of entries with different paths followed by the unshift of its result runs without
  any failure.
\<close>

lemma ChildCache_Remove_no_outage:
  "outages st = [] \<Longrightarrow> ChildCache_Remove cc v st = (err, cc', st') \<Longrightarrow>
     err = None \<and> outages st' = []"
  by (auto simp: ChildCache_Remove_def store_delete_def split: prod.splits option.splits if_splits)

lemma ChildCache_Add_no_outage:
  "outages st = [] \<Longrightarrow> nodes st (Path n) = None \<Longrightarrow> ChildCache_Add cc n st = (err, cc', st') \<Longrightarrow>
     err = None \<and> outages st' = [] \<and> nodes st' = (nodes st)(Path n \<mapsto> (Data n, CreateFlags cc))"
  by (auto simp: ChildCache_Add_def store_create_def split: prod.splits option.splits if_splits)

lemma Remove_errors_no_outage:
  "outages st = [] \<Longrightarrow> \<forall>e\<in>set (Remove_errors vs cc st). e = None"
proof (induction vs arbitrary: cc st)
  case Nil
  then show ?case by simp
next
  case (Cons v vs)
  obtain err cc1 st1 where r: "ChildCache_Remove cc v st = (err, cc1, st1)"
    by (cases "ChildCache_Remove cc v st") auto
  from ChildCache_Remove_no_outage [OF Cons.prems r] Cons.IH [of st1 cc1] r
  show ?case by simp
qed

lemma ShiftWork_loop_no_outage:
  "outages st = [] \<Longrightarrow> ShiftWork_loop vs removed cc st = (removed', cc', st') \<Longrightarrow>
     outages st' = []"
proof (induction vs arbitrary: removed cc st)
  case Nil
  then show ?case by simp
next
  case (Cons v vs)
  obtain err cc1 st1 where r: "ChildCache_Remove cc v st = (err, cc1, st1)"
    by (cases "ChildCache_Remove cc v st") auto
  from ChildCache_Remove_no_outage [OF Cons.prems(1) r] have o: "outages st1 = []" by simp
  from Cons.prems(2) r have "ShiftWork_loop vs (removed @ [v]) cc1 st1 = (removed', cc', st')"
    by simp
  from Cons.IH [OF o this] show ?case .
qed

lemma Add_errors_no_outage:
  "outages st = [] \<Longrightarrow> distinct (map Path ns) \<Longrightarrow> \<forall>n\<in>set ns. nodes st (Path n) = None \<Longrightarrow>
     \<forall>e\<in>set (Add_errors ns cc st). e = None"
proof (induction ns arbitrary: cc st)
  case Nil
  then show ?case by simp
next
  case (Cons n ns)
  obtain err cc1 st1 where a: "ChildCache_Add cc n st = (err, cc1, st1)"
    by (cases "ChildCache_Add cc n st") auto
  from Cons.prems(3) have "nodes st (Path n) = None" by simp
  from ChildCache_Add_no_outage [OF Cons.prems(1) this a]
  have e: "err = None" and o: "outages st1 = []"
    and n1: "nodes st1 = (nodes st)(Path n \<mapsto> (Data n, CreateFlags cc))"
    by auto
  from Cons.prems(2) have d: "distinct (map Path ns)" and nin: "Path n \<notin> Path ` set ns"
    by auto
  have "\<forall>m\<in>set ns. nodes st1 (Path m) = None"
  proof
    fix m assume m: "m \<in> set ns"
    with nin have "Path m \<noteq> Path n" by (metis image_eqI)
    with n1 Cons.prems(3) m show "nodes st1 (Path m) = None" by simp
  qed
  from Cons.IH [OF o d this, of cc1] e a show ?case by simp
qed

lemma Shift_Unshift_no_outage:
  assumes "0 < n" "n \<le> ChildCache_Size (Children w)"
    and "outages st = []"
    and "distinct (map Path (take (nat n) (ChildCache_ToSlice (Children w))))"
    and "ShiftWork w n st = (removed, w', st')"
  shows "(\<forall>e\<in>set (ShiftWork_errors w n st). e = None) \<and>
         (\<forall>e\<in>set (UnshiftWork_errors w' removed st'). e = None)"
proof -
  let ?sel = "take (nat n) (children (Children w))"
  have sel: "ShiftWork_selected w n = ?sel"
    using assms(1,2) by (simp add: ShiftWork_selected_def ChildCache_ToSlice_def)
  from ShiftWork_returns_selected [of w n st] assms(5) sel
  have r: "removed = ?sel" by simp
  obtain r1 cc1 st1 where loop: "ShiftWork_loop ?sel [] (Children w) st = (r1, cc1, st1)"
    by (cases "ShiftWork_loop ?sel [] (Children w) st") auto
  with assms(1,2,5) have st': "st' = st1"
    by (auto simp: ShiftWork_def ChildCache_ToSlice_def)
  have a: "\<forall>e\<in>set (Remove_errors ?sel (Children w) st). e = None"
    by (rule Remove_errors_no_outage [OF assms(3)])
  have b: "children (Children w) = ?sel @ drop (nat n) (children (Children w))"
    by simp
  from ShiftWork_loop_all_ok [OF a b loop] st'
  have gone: "\<forall>v\<in>set removed. nodes st' (Path v) = None"
    using r by simp
  from ShiftWork_loop_no_outage [OF assms(3) loop] st' have o: "outages st' = []" by simp
  from assms(4) r have d: "distinct (map Path removed)"
    by (simp add: ChildCache_ToSlice_def)
  from Add_errors_no_outage [OF o d gone, of "Children w'"] a sel show ?thesis
    by (simp add: ShiftWork_errors_def UnshiftWork_errors_def)
qed

text \<open>
  Each loop is the left fold of its cache call over the nodes: the call is made for every
  node in order, whatever the earlier calls returned. Every call takes one entry off the
  outage schedule; a successful removal deletes the path from the store and the first
  matching entry from the cache, a failed one changes neither.
\<close>

lemma next_outage_drop: "snd (next_outage os) = drop 1 os"
  by (cases os) auto

lemma ChildCache_Remove_outages:
  "outages (snd (snd (ChildCache_Remove cc v st))) = drop 1 (outages st)"
  using next_outage_drop [of "outages st"]
  by (cases "next_outage (outages st)") (auto simp: ChildCache_Remove_def store_delete_def)

lemma ChildCache_Add_outages:
  "outages (snd (snd (ChildCache_Add cc n st))) = drop 1 (outages st)"
  using next_outage_drop [of "outages st"]
  by (cases "next_outage (outages st)") (auto simp: ChildCache_Add_def store_create_def)

lemma ChildCache_Remove_effect:
  "ChildCache_Remove cc v st = (err, cc', st') \<Longrightarrow>
     cc' = (if err = None then cc\<lparr>children := remove_path (Path v) (children cc)\<rparr> else cc) \<and>
     nodes st' = (if err = None then (nodes st)(Path v := None) else nodes st)"
  by (cases "next_outage (outages st)")
     (auto simp: ChildCache_Remove_def store_delete_def split: if_splits)

lemma ShiftWork_loop_foldl:
  "ShiftWork_loop vs removed cc st =
     (removed @ vs, foldl (\<lambda>(cc, s) v. snd (ChildCache_Remove cc v s)) (cc, st) vs)"
proof (induction vs arbitrary: removed cc st)
  case Nil
  then show ?case by simp
next
  case (Cons v vs)
  obtain err cc1 st1 where r: "ChildCache_Remove cc v st = (err, cc1, st1)"
    by (cases "ChildCache_Remove cc v st") auto
  with Cons.IH [of "removed @ [v]" cc1 st1] show ?case by simp
qed

lemma UnshiftWork_loop_foldl:
  "UnshiftWork_loop ns cc st = foldl (\<lambda>(cc, s) n. snd (ChildCache_Add cc n s)) (cc, st) ns"
proof (induction ns arbitrary: cc st)
  case Nil
  then show ?case by simp
next
  case (Cons n ns)
  obtain err cc1 st1 where a: "ChildCache_Add cc n st = (err, cc1, st1)"
    by (cases "ChildCache_Add cc n st") auto
  with Cons.IH [of cc1 st1] show ?case by simp
qed

lemma Remove_all_effect:
  "foldl (\<lambda>(cc, s) v. snd (ChildCache_Remove cc v s)) (cc, st) vs = (cc', st') \<Longrightarrow>
     cc' = cc\<lparr>children := foldl (\<lambda>xs v. remove_path (Path v) xs) (children cc)
                              (succeeded vs (Remove_errors vs cc st))\<rparr> \<and>
     nodes st' = (\<lambda>p. if p \<in> Path ` set (succeeded vs (Remove_errors vs cc st)) then None
                       else nodes st p) \<and>
     outages st' = drop (length vs) (outages st)"
proof (induction vs arbitrary: cc st)
  case Nil
  then show ?case by (auto simp: succeeded_Nil)
next
  case (Cons v vs)
  obtain err cc1 st1 where r: "ChildCache_Remove cc v st = (err, cc1, st1)"
    by (cases "ChildCache_Remove cc v st") auto
  from Cons.prems r
  have f: "foldl (\<lambda>(cc, s) v. snd (ChildCache_Remove cc v s)) (cc1, st1) vs = (cc', st')"
    by simp
  note ih = Cons.IH [OF f]
  from ChildCache_Remove_outages [of cc v st] r have o: "outages st1 = drop 1 (outages st)"
    by simp
  note e = ChildCache_Remove_effect [OF r]
  show ?case
  proof (cases "err = None")
    case True
    with e have c1: "cc1 = cc\<lparr>children := remove_path (Path v) (children cc)\<rparr>"
      and n1: "nodes st1 = (nodes st)(Path v := None)" by auto
    from ih c1 n1 o r True show ?thesis
      by (auto simp: succeeded_Cons)
  next
    case False
    with e have c1: "cc1 = cc" and n1: "nodes st1 = nodes st" by auto
    from ih c1 n1 o r False show ?thesis
      by (auto simp: succeeded_Cons)
  qed
qed

lemma Add_all_outages:
  "outages (snd (foldl (\<lambda>(cc, s) n. snd (ChildCache_Add cc n s)) (cc, st) ns)) =
     drop (length ns) (outages st)"
proof (induction ns arbitrary: cc st)
  case Nil
  then show ?case by simp
next
  case (Cons n ns)
  obtain err cc1 st1 where a: "ChildCache_Add cc n st = (err, cc1, st1)"
    by (cases "ChildCache_Add cc n st") auto
  from ChildCache_Add_outages [of cc n st] a have "outages st1 = drop 1 (outages st)" by simp
  with Cons.IH [of cc1 st1] a show ?case by simp
qed

lemma ShiftWork_foldl:
  "ShiftWork w amount st =
     (ShiftWork_selected w amount,
      w\<lparr>Children := fst (foldl (\<lambda>(cc, s) v. snd (ChildCache_Remove cc v s)) (Children w, st)
                           (ShiftWork_selected w amount))\<rparr>,
      snd (foldl (\<lambda>(cc, s) v. snd (ChildCache_Remove cc v s)) (Children w, st)
             (ShiftWork_selected w amount)))"
  by (simp add: ShiftWork_def ShiftWork_selected_def ShiftWork_loop_foldl Let_def
      split: prod.splits)

lemma UnshiftWork_foldl:
  "UnshiftWork w ns st =
     (w\<lparr>Children := fst (foldl (\<lambda>(cc, s) n. snd (ChildCache_Add cc n s)) (Children w, st) ns)\<rparr>,
      snd (foldl (\<lambda>(cc, s) n. snd (ChildCache_Add cc n s)) (Children w, st) ns))"
  by (simp add: UnshiftWork_def UnshiftWork_loop_foldl split: prod.splits)

text \<open>
  When every removal of a shift succeeds the cache is left with the entries behind the
  selected ones.
\<close>

lemma ShiftWork_all_removed:
  assumes "0 < n" "n \<le> ChildCache_Size (Children w)"
    and "ShiftWork w n st = (removed, w', st')"
  shows "removed = take (nat n) (ChildCache_ToSlice (Children w)) \<and>
         length (ShiftWork_errors w n st) = nat n \<and>
         ((\<forall>e\<in>set (ShiftWork_errors w n st). e = None) \<longrightarrow>
            ChildCache_ToSlice (Children w') = drop (nat n) (ChildCache_ToSlice (Children w)) \<and>
            ChildCache_Size (Children w') = ChildCache_Size (Children w) - n \<and>
            (\<forall>v\<in>set removed. nodes st' (Path v) = None))"
proof -
  let ?sel = "take (nat n) (children (Children w))"
  have sel: "ShiftWork_selected w n = ?sel"
    using assms(1,2) by (simp add: ShiftWork_selected_def ChildCache_ToSlice_def)
  have len: "length ?sel = nat n"
    using assms(1,2) by (simp add: ChildCache_Size_def)
  from ShiftWork_returns_selected [of w n st] assms(3) sel
  have r: "removed = ?sel" by simp
  obtain r1 cc1 st1 where loop: "ShiftWork_loop ?sel [] (Children w) st = (r1, cc1, st1)"
    by (cases "ShiftWork_loop ?sel [] (Children w) st") auto
  with assms have w': "w' = w\<lparr>Children := cc1\<rparr>" and st': "st' = st1"
    by (auto simp: ShiftWork_def ChildCache_ToSlice_def)
  have e: "length (ShiftWork_errors w n st) = nat n"
    using sel len by (simp add: ShiftWork_errors_def Remove_errors_length)
  have ok: "(\<forall>e\<in>set (ShiftWork_errors w n st). e = None) \<longrightarrow>
            ChildCache_ToSlice (Children w') = drop (nat n) (ChildCache_ToSlice (Children w)) \<and>
            ChildCache_Size (Children w') = ChildCache_Size (Children w) - n \<and>
            (\<forall>v\<in>set removed. nodes st' (Path v) = None)"
  proof
    assume "\<forall>e\<in>set (ShiftWork_errors w n st). e = None"
    then have a: "\<forall>e\<in>set (Remove_errors ?sel (Children w) st). e = None"
      using sel by (simp add: ShiftWork_errors_def)
    have b: "children (Children w) = ?sel @ drop (nat n) (children (Children w))"
      by simp
    from ShiftWork_loop_all_ok [OF a b loop]
    have c: "children cc1 = drop (nat n) (children (Children w))"
      and d: "nodes st1 = (\<lambda>p. if p \<in> Path ` set ?sel then None else nodes st p)"
      by auto
    from c w' assms(1,2) have "ChildCache_Size (Children w') = ChildCache_Size (Children w) - n"
      by (simp add: ChildCache_Size_def)
    with c d w' st' r show "ChildCache_ToSlice (Children w') = drop (nat n) (ChildCache_ToSlice (Children w)) \<and>
            ChildCache_Size (Children w') = ChildCache_Size (Children w) - n \<and>
            (\<forall>v\<in>set removed. nodes st' (Path v) = None)"
      by (simp add: ChildCache_ToSlice_def)
  qed
  from r e ok show ?thesis by (simp add: ChildCache_ToSlice_def)
qed

text \<open>
  C1. Claim: the slice returned by \<open>ShiftWork(amount)\<close>, for \<open>0 < amount \<le> Size()\<close>, holds
  exactly the selected entries whose \<open>Children.Remove\<close> succeeded. The code appends the
  entry after the empty error branch: with the store disconnected for the one call,
  \<open>ShiftWork(1)\<close> returns \<open>work-1\<close> although its removal failed.
\<close>

theorem ShiftWork_returns_failed_removal:
  "0 < (1::int) \<and> 1 \<le> ChildCache_Size (Children ex_worker) \<and>
   ShiftWork_errors ex_worker 1 ex_store_down = [Some (Disconnected, Path ex_work1)] \<and>
   fst (ShiftWork ex_worker 1 ex_store_down) = [ex_work1] \<and>
   succeeded (ShiftWork_selected ex_worker 1) (ShiftWork_errors ex_worker 1 ex_store_down) = [] \<and>
   fst (ShiftWork ex_worker 1 ex_store_down) \<noteq>
     succeeded (ShiftWork_selected ex_worker 1) (ShiftWork_errors ex_worker 1 ex_store_down)"
  by (simp add: ex_defs ShiftWork_def ShiftWork_errors_def ShiftWork_selected_def succeeded_def
      ChildCache_Size_def ChildCache_ToSlice_def ChildCache_Remove_def store_delete_def)

text \<open>
  C1, amended: for \<open>0 < amount \<le> Size()\<close> the returned slice is the first \<open>amount\<close>
  entries of the cache's order at the call, whether or not their removals succeeded.
\<close>

theorem ShiftWork_returns_all_selected:
  assumes "0 < amount" "amount \<le> ChildCache_Size (Children w)"
  shows "fst (ShiftWork w amount st) = take (nat amount) (ChildCache_ToSlice (Children w))"
  using assms ShiftWork_returns_selected [of w amount st]
  by (simp add: ShiftWork_selected_def)

theorem ShiftWork_returns_all_selected_witness:
  "(0::int) < 2 \<and> 2 \<le> ChildCache_Size (Children ex_worker) \<and>
   fst (ShiftWork ex_worker 2 ex_store_down) = [ex_work1, ex_work2]"
proof -
  have h1: "(0::int) < 2" by simp
  have h2: "2 \<le> ChildCache_Size (Children ex_worker)"
    by (simp add: ex_defs ChildCache_Size_def)
  from ShiftWork_returns_all_selected [OF h1 h2, of ex_store_down] h1 h2 show ?thesis
    by (simp add: ex_worker_def NewWorker_def NewChildCache_def NewZnode_def ChildCache_ToSlice_def)
qed

text \<open>
  C2. Claim: \<open>ShiftWork\<close> and \<open>UnshiftWork\<close> return the per-item failures to the caller.
  \<open>ShiftWork\<close> returns the same slice from a store that fails the removal and from one
  that performs it, so the caller cannot tell the failure; \<open>UnshiftWork\<close>, which has no
  result at all, meets a failing \<open>Children.Add\<close> when the node already exists.
\<close>

theorem ShiftWork_result_hides_failure:
  "ShiftWork_errors ex_worker 1 ex_store_down = [Some (Disconnected, Path ex_work1)] \<and>
   ShiftWork_errors ex_worker 1 ex_store = [None] \<and>
   fst (ShiftWork ex_worker 1 ex_store_down) = fst (ShiftWork ex_worker 1 ex_store) \<and>
   UnshiftWork_errors ex_worker [ex_work1] ex_store = [Some (NodeExists, Path ex_work1)]"
  by (simp add: ex_defs run_defs)

text \<open>
  C2, amended: the errors are dropped. The slice \<open>ShiftWork\<close> returns does not depend on
  the store, hence not on any failure; \<open>UnshiftWork\<close> returns nothing. Neither method
  stops at a failure: \<open>ShiftWork\<close> calls \<open>Children.Remove\<close> for every selected node and
  \<open>UnshiftWork\<close> calls \<open>Children.Add\<close> for every node, in order, so a store call is
  made per node. After \<open>ShiftWork\<close> exactly the paths whose removal succeeded are gone
  from the store and their entries from the cache; after \<open>UnshiftWork\<close> the cache holds
  its old entries followed by exactly the nodes whose \<open>Children.Add\<close> succeeded.
\<close>

theorem Shift_Unshift_drop_errors:
  "fst (ShiftWork w amount st) = fst (ShiftWork w amount st') \<and>
   ChildCache_ToSlice (Children (fst (UnshiftWork w ns st))) =
     ChildCache_ToSlice (Children w) @ succeeded ns (UnshiftWork_errors w ns st) \<and>
   snd (ShiftWork w amount st) =
     (w\<lparr>Children := fst (foldl (\<lambda>(cc, s) v. snd (ChildCache_Remove cc v s)) (Children w, st)
                           (ShiftWork_selected w amount))\<rparr>,
      snd (foldl (\<lambda>(cc, s) v. snd (ChildCache_Remove cc v s)) (Children w, st)
             (ShiftWork_selected w amount))) \<and>
   ChildCache_ToSlice (Children (fst (snd (ShiftWork w amount st)))) =
     foldl (\<lambda>xs v. remove_path (Path v) xs) (ChildCache_ToSlice (Children w))
       (succeeded (ShiftWork_selected w amount) (ShiftWork_errors w amount st)) \<and>
   nodes (snd (snd (ShiftWork w amount st))) =
     (\<lambda>p. if p \<in> Path ` set (succeeded (ShiftWork_selected w amount)
                                 (ShiftWork_errors w amount st))
          then None else nodes st p) \<and>
   outages (snd (snd (ShiftWork w amount st))) =
     drop (length (ShiftWork_selected w amount)) (outages st) \<and>
   UnshiftWork w ns st =
     (w\<lparr>Children := fst (foldl (\<lambda>(cc, s) n. snd (ChildCache_Add cc n s)) (Children w, st) ns)\<rparr>,
      snd (foldl (\<lambda>(cc, s) n. snd (ChildCache_Add cc n s)) (Children w, st) ns)) \<and>
   outages (snd (UnshiftWork w ns st)) = drop (length ns) (outages st)"
proof -
  let ?sel = "ShiftWork_selected w amount"
  let ?X = "foldl (\<lambda>(cc, s) v. snd (ChildCache_Remove cc v s)) (Children w, st) ?sel"
  have c1: "fst (ShiftWork w amount st) = fst (ShiftWork w amount st')"
    by (simp add: ShiftWork_returns_selected)
  have c2: "ChildCache_ToSlice (Children (fst (UnshiftWork w ns st))) =
     ChildCache_ToSlice (Children w) @ succeeded ns (UnshiftWork_errors w ns st)"
    using UnshiftWork_loop_children [of ns "Children w" st]
    by (cases "UnshiftWork_loop ns (Children w) st")
       (simp add: UnshiftWork_def UnshiftWork_errors_def ChildCache_ToSlice_def)
  have c3: "snd (ShiftWork w amount st) = (w\<lparr>Children := fst ?X\<rparr>, snd ?X)"
    using ShiftWork_foldl [of w amount st] by simp
  have x: "?X = (fst ?X, snd ?X)" by simp
  note eff = Remove_all_effect [OF x]
  from c3 eff have c4: "ChildCache_ToSlice (Children (fst (snd (ShiftWork w amount st)))) =
     foldl (\<lambda>xs v. remove_path (Path v) xs) (ChildCache_ToSlice (Children w))
       (succeeded ?sel (ShiftWork_errors w amount st))"
    by (simp add: ChildCache_ToSlice_def ShiftWork_errors_def)
  from c3 eff have c5: "nodes (snd (snd (ShiftWork w amount st))) =
     (\<lambda>p. if p \<in> Path ` set (succeeded ?sel (ShiftWork_errors w amount st))
          then None else nodes st p)"
    by (simp add: ShiftWork_errors_def)
  from c3 eff have c6: "outages (snd (snd (ShiftWork w amount st))) =
     drop (length ?sel) (outages st)"
    by simp
  have c7: "UnshiftWork w ns st =
     (w\<lparr>Children := fst (foldl (\<lambda>(cc, s) n. snd (ChildCache_Add cc n s)) (Children w, st) ns)\<rparr>,
      snd (foldl (\<lambda>(cc, s) n. snd (ChildCache_Add cc n s)) (Children w, st) ns))"
    by (rule UnshiftWork_foldl)
  have c8: "outages (snd (UnshiftWork w ns st)) = drop (length ns) (outages st)"
    using Add_all_outages [of "Children w" st ns] by (simp add: UnshiftWork_foldl)
  show ?thesis
    by (intro conjI) (rule c1 c2 c3 c4 c5 c6 c7 c8)+
qed

theorem Shift_Unshift_drop_errors_witness:
  "ShiftWork_errors ex_worker 2 ex_store_down = [Some (Disconnected, Path ex_work1), None] \<and>
   fst (ShiftWork ex_worker 2 ex_store_down) = [ex_work1, ex_work2] \<and>
   ChildCache_ToSlice (Children (fst (snd (ShiftWork ex_worker 2 ex_store_down)))) =
     [ex_work1, ex_work3] \<and>
   nodes (snd (snd (ShiftWork ex_worker 2 ex_store_down))) (Path ex_work1) =
     Some ([], FlagEphemeral) \<and>
   nodes (snd (snd (ShiftWork ex_worker 2 ex_store_down))) (Path ex_work2) = None \<and>
   outages (snd (snd (ShiftWork ex_worker 2 ex_store_down))) = [] \<and>
   UnshiftWork_errors ex_worker [ex_work1, NewZnode ''/workers/w1/work-4''] ex_store =
     [Some (NodeExists, Path ex_work1), None] \<and>
   ChildCache_ToSlice (Children (fst (UnshiftWork ex_worker
       [ex_work1, NewZnode ''/workers/w1/work-4''] ex_store))) =
     [ex_work1, ex_work2, ex_work3, NewZnode ''/workers/w1/work-4'']"
proof -
  have e1: "ShiftWork_errors ex_worker 2 ex_store_down =
      [Some (Disconnected, Path ex_work1), None]"
    by (simp add: ex_defs run_defs)
  have s1: "ShiftWork_selected ex_worker 2 = [ex_work1, ex_work2]"
    by (simp add: ex_defs run_defs)
  have e2: "UnshiftWork_errors ex_worker [ex_work1, NewZnode ''/workers/w1/work-4''] ex_store =
      [Some (NodeExists, Path ex_work1), None]"
    by (simp add: ex_defs run_defs)
  have k: "ChildCache_ToSlice (Children ex_worker) = [ex_work1, ex_work2, ex_work3]"
    by (simp add: ex_worker_def NewWorker_def NewChildCache_def NewZnode_def
        ChildCache_ToSlice_def)
  have p: "Path ex_work2 \<noteq> Path ex_work1" "Path ex_work3 \<noteq> Path ex_work2"
    by (simp_all add: ex_defs)
  have o: "outages ex_store_down = [True]" "nodes ex_store_down (Path ex_work1) = Some ([], FlagEphemeral)"
    by (simp_all add: ex_defs)
  let ?sel = "ShiftWork_selected ex_worker 2"
  let ?errs = "ShiftWork_errors ex_worker 2 ex_store_down"
  let ?r = "ShiftWork ex_worker 2 ex_store_down"
  let ?ns = "[ex_work1, NewZnode ''/workers/w1/work-4'']"
  note T = Shift_Unshift_drop_errors [of ex_worker 2 ex_store_down ex_store_down ?ns]
  note U = Shift_Unshift_drop_errors [of ex_worker 2 ex_store ex_store ?ns]
  have su: "succeeded ?sel ?errs = [ex_work2]"
    by (simp add: e1 s1 succeeded_def)
  from T have "ChildCache_ToSlice (Children (fst (snd ?r))) =
      foldl (\<lambda>xs v. remove_path (Path v) xs) (ChildCache_ToSlice (Children ex_worker))
        (succeeded ?sel ?errs)"
    by blast
  with su k p have a: "ChildCache_ToSlice (Children (fst (snd ?r))) = [ex_work1, ex_work3]"
    by simp
  from T have n: "nodes (snd (snd ?r)) =
      (\<lambda>p. if p \<in> Path ` set (succeeded ?sel ?errs) then None else nodes ex_store_down p)"
    by blast
  from n su p o have b: "nodes (snd (snd ?r)) (Path ex_work1) = Some ([], FlagEphemeral)"
    by simp
  from n su have c: "nodes (snd (snd ?r)) (Path ex_work2) = None"
    by simp
  from T have "outages (snd (snd ?r)) = drop (length ?sel) (outages ex_store_down)"
    by blast
  with s1 o have d: "outages (snd (snd ?r)) = []"
    by simp
  have f: "fst ?r = [ex_work1, ex_work2]"
    by (simp add: ShiftWork_returns_selected s1)
  from U have "ChildCache_ToSlice (Children (fst (UnshiftWork ex_worker ?ns ex_store))) =
      ChildCache_ToSlice (Children ex_worker) @
        succeeded ?ns (UnshiftWork_errors ex_worker ?ns ex_store)"
    by blast
  with e2 k have g: "ChildCache_ToSlice (Children (fst (UnshiftWork ex_worker ?ns ex_store))) =
      [ex_work1, ex_work2, ex_work3, NewZnode ''/workers/w1/work-4'']"
    by (simp add: succeeded_def)
  from e1 f a b c d e2 g show ?thesis by blast
qed

text \<open>
  C3. For \<open>0 < n \<le> Size()\<close>, \<open>ShiftWork(n)\<close> selects the first \<open>n\<close> entries of the cache's
  order and issues \<open>Children.Remove\<close> for each of them, in that order and whatever the
  earlier removals returned: the worker and the store it leaves are those of the \<open>n\<close>
  calls, \<open>n\<close> entries of the outage schedule are used up, and exactly the paths whose
  removal succeeded are gone from the store and their entries from the cache. When all
  removals succeed the cache keeps the remaining entries, \<open>Size()\<close> has decreased by \<open>n\<close>
  and none of the selected paths is left in the store.
\<close>

theorem ShiftWork_fifo:
  assumes "0 < n" "n \<le> ChildCache_Size (Children w)"
    and "ShiftWork w n st = (removed, w', st')"
  shows "removed = take (nat n) (ChildCache_ToSlice (Children w)) \<and>
         length (ShiftWork_errors w n st) = nat n \<and>
         ((\<forall>e\<in>set (ShiftWork_errors w n st). e = None) \<longrightarrow>
            ChildCache_ToSlice (Children w') = drop (nat n) (ChildCache_ToSlice (Children w)) \<and>
            ChildCache_Size (Children w') = ChildCache_Size (Children w) - n \<and>
            (\<forall>v\<in>set removed. nodes st' (Path v) = None)) \<and>
         (w', st') =
           (w\<lparr>Children := fst (foldl (\<lambda>(cc, s) v. snd (ChildCache_Remove cc v s))
                                  (Children w, st) removed)\<rparr>,
            snd (foldl (\<lambda>(cc, s) v. snd (ChildCache_Remove cc v s)) (Children w, st) removed)) \<and>
         outages st' = drop (nat n) (outages st) \<and>
         nodes st' =
           (\<lambda>p. if p \<in> Path ` set (succeeded removed (ShiftWork_errors w n st)) then None
                else nodes st p) \<and>
         ChildCache_ToSlice (Children w') =
           foldl (\<lambda>xs v. remove_path (Path v) xs) (ChildCache_ToSlice (Children w))
             (succeeded removed (ShiftWork_errors w n st))"
proof -
  let ?X = "foldl (\<lambda>(cc, s) v. snd (ChildCache_Remove cc v s)) (Children w, st) removed"
  have sel: "ShiftWork_selected w n = take (nat n) (ChildCache_ToSlice (Children w))"
    using assms(1,2) by (simp add: ShiftWork_selected_def)
  from ShiftWork_returns_selected [of w n st] assms(3)
  have r: "ShiftWork_selected w n = removed" by simp
  from r sel have "removed = take (nat n) (children (Children w))"
    by (simp add: ChildCache_ToSlice_def)
  then have len: "length removed = nat n"
    using assms(1,2) by (simp add: ChildCache_Size_def)
  from ShiftWork_foldl [of w n st] assms(3) r
  have c4: "(w', st') = (w\<lparr>Children := fst ?X\<rparr>, snd ?X)"
    by simp
  have x: "?X = (fst ?X, snd ?X)" by simp
  note eff = Remove_all_effect [OF x]
  from c4 eff len have c5: "outages st' = drop (nat n) (outages st)"
    by simp
  from c4 eff r have c6: "nodes st' =
      (\<lambda>p. if p \<in> Path ` set (succeeded removed (ShiftWork_errors w n st)) then None
           else nodes st p)"
    by (simp add: ShiftWork_errors_def)
  from c4 eff r have c7: "ChildCache_ToSlice (Children w') =
      foldl (\<lambda>xs v. remove_path (Path v) xs) (ChildCache_ToSlice (Children w))
        (succeeded removed (ShiftWork_errors w n st))"
    by (simp add: ShiftWork_errors_def ChildCache_ToSlice_def)
  note old = ShiftWork_all_removed [OF assms]
  note o1 = old [THEN conjunct1]
  note o2 = old [THEN conjunct2, THEN conjunct1]
  note o3 = old [THEN conjunct2, THEN conjunct2]
  show ?thesis
    by (intro conjI) (rule o1 o2 o3 c4 c5 c6 c7)+
qed

theorem ShiftWork_fifo_witness:
  "(0::int) < 2 \<and> 2 \<le> ChildCache_Size (Children ex_worker) \<and>
   ShiftWork_errors ex_worker 2 ex_store = [None, None] \<and>
   fst (ShiftWork ex_worker 2 ex_store) = [ex_work1, ex_work2] \<and>
   ChildCache_ToSlice (Children (fst (snd (ShiftWork ex_worker 2 ex_store)))) = [ex_work3] \<and>
   ChildCache_Size (Children (fst (snd (ShiftWork ex_worker 2 ex_store)))) = 1 \<and>
   nodes (snd (snd (ShiftWork ex_worker 2 ex_store))) (Path ex_work1) = None \<and>
   nodes (snd (snd (ShiftWork ex_worker 2 ex_store))) (Path ex_work2) = None \<and>
   ShiftWork_errors ex_worker 2 ex_store_down = [Some (Disconnected, Path ex_work1), None] \<and>
   fst (ShiftWork ex_worker 2 ex_store_down) = [ex_work1, ex_work2] \<and>
   ChildCache_ToSlice (Children (fst (snd (ShiftWork ex_worker 2 ex_store_down)))) =
     [ex_work1, ex_work3] \<and>
   nodes (snd (snd (ShiftWork ex_worker 2 ex_store_down))) (Path ex_work1) =
     Some ([], FlagEphemeral) \<and>
   nodes (snd (snd (ShiftWork ex_worker 2 ex_store_down))) (Path ex_work2) = None \<and>
   outages (snd (snd (ShiftWork ex_worker 2 ex_store_down))) = []"
proof -
  let ?r = "ShiftWork ex_worker 2 ex_store"
  let ?d = "ShiftWork ex_worker 2 ex_store_down"
  have h1: "(0::int) < 2" by simp
  have h2: "2 \<le> ChildCache_Size (Children ex_worker)"
    by (simp add: ex_defs ChildCache_Size_def)
  have h3: "?r = (fst ?r, fst (snd ?r), snd (snd ?r))" by simp
  have h3d: "?d = (fst ?d, fst (snd ?d), snd (snd ?d))" by simp
  have e4: "ShiftWork_errors ex_worker 2 ex_store = [None, None]"
    by (simp add: ex_defs run_defs)
  have e4d: "ShiftWork_errors ex_worker 2 ex_store_down =
      [Some (Disconnected, Path ex_work1), None]"
    by (simp add: ex_defs run_defs)
  have sz: "ChildCache_Size (Children ex_worker) = 3"
    by (simp add: ex_defs ChildCache_Size_def)
  have sl: "ChildCache_ToSlice (Children ex_worker) = [ex_work1, ex_work2, ex_work3]"
    by (simp add: ex_worker_def NewWorker_def NewChildCache_def NewZnode_def ChildCache_ToSlice_def)
  have p: "Path ex_work2 \<noteq> Path ex_work1" "Path ex_work3 \<noteq> Path ex_work2"
    by (simp_all add: ex_defs)
  have o: "outages ex_store_down = [True]"
    "nodes ex_store_down (Path ex_work1) = Some ([], FlagEphemeral)"
    by (simp_all add: ex_defs)
  note R = ShiftWork_fifo [OF h1 h2 h3]
  note D = ShiftWork_fifo [OF h1 h2 h3d]
  note r1 = R [THEN conjunct1]
  from r1 sl have a1: "fst ?r = [ex_work1, ex_work2]"
    by simp
  have ok: "\<forall>e\<in>set (ShiftWork_errors ex_worker 2 ex_store). e = None"
    by (simp add: e4)
  note r3 = R [THEN conjunct2, THEN conjunct2, THEN conjunct1, THEN mp, OF ok]
  note r2 = r3 [THEN conjunct1] r3 [THEN conjunct2, THEN conjunct1]
    r3 [THEN conjunct2, THEN conjunct2]
  from r2(1) sl have a2: "ChildCache_ToSlice (Children (fst (snd ?r))) = [ex_work3]"
    by simp
  from r2(2) sz have a3: "ChildCache_Size (Children (fst (snd ?r))) = 1"
    by simp
  from r2(3) a1 have a4: "nodes (snd (snd ?r)) (Path ex_work1) = None"
    and a5: "nodes (snd (snd ?r)) (Path ex_work2) = None"
    by simp_all
  note a = a1 a2 a3 a4 a5
  note d1 = D [THEN conjunct1]
  note d4 = D [THEN conjunct2, THEN conjunct2, THEN conjunct2, THEN conjunct2]
  note d5 = d4 [THEN conjunct1]
  note d6 = d4 [THEN conjunct2, THEN conjunct1]
  note d7 = d4 [THEN conjunct2, THEN conjunct2]
  from d1 sl have fd: "fst ?d = [ex_work1, ex_work2]"
    by simp
  then have su: "succeeded (fst ?d) (ShiftWork_errors ex_worker 2 ex_store_down) = [ex_work2]"
    by (simp add: e4d succeeded_def)
  from d7 su sl p have b: "ChildCache_ToSlice (Children (fst (snd ?d))) = [ex_work1, ex_work3]"
    by simp
  from d6 su p o have c: "nodes (snd (snd ?d)) (Path ex_work1) = Some ([], FlagEphemeral)"
    by simp
  from d6 su have d: "nodes (snd (snd ?d)) (Path ex_work2) = None"
    by simp
  from d5 o have f: "outages (snd (snd ?d)) = []"
    by simp
  from h1 h2 e4 a e4d fd b c d f show ?thesis by simp
qed

text \<open>
  C4. For \<open>Size() < amount\<close>, \<open>ShiftWork(amount)\<close> issues no removal, leaves the worker's
  cache and the store as they are and returns the empty slice.
\<close>

theorem ShiftWork_too_many:
  assumes "ChildCache_Size (Children w) < amount"
  shows "ShiftWork w amount st = ([], w, st) \<and> ShiftWork_errors w amount st = []"
  using assms by (simp add: ShiftWork_def ShiftWork_errors_def ShiftWork_selected_def)

theorem ShiftWork_too_many_witness:
  "ChildCache_Size (Children ex_worker) < 4 \<and>
   ShiftWork ex_worker 4 ex_store = ([], ex_worker, ex_store) \<and>
   ShiftWork_errors ex_worker 4 ex_store = []"
proof -
  have h: "ChildCache_Size (Children ex_worker) < 4"
    by (simp add: ex_defs ChildCache_Size_def)
  from ShiftWork_too_many [OF h, of ex_store] h show ?thesis by simp
qed

text \<open>
  C5. Claim: \<open>ShiftWork(amount)\<close> with \<open>amount \<le> 0\<close> is rejected as an \<open>InvalidInput\<close>
  error. The method has no error result: at \<open>amount = 0\<close> it returns the empty slice as
  its normal result, which is not what \<open>ShiftWork_spec\<close> prescribes.
\<close>

theorem ShiftWork_zero_not_rejected:
  "ShiftWork_spec ex_worker 0 ex_store = Inl InvalidInput \<and>
   ShiftWork ex_worker 0 ex_store = ([], ex_worker, ex_store) \<and>
   Inr (ShiftWork ex_worker 0 ex_store) \<noteq> ShiftWork_spec ex_worker 0 ex_store"
  by (simp add: ShiftWork_spec_def ShiftWork_def)

text \<open>
  C5, amended: for \<open>amount \<le> 0\<close>, \<open>ShiftWork(amount)\<close> issues no removal, leaves the
  cache as it is and returns the empty slice as a normal result.
\<close>

theorem ShiftWork_nonpositive:
  assumes "amount \<le> 0"
  shows "ShiftWork w amount st = ([], w, st) \<and> ShiftWork_errors w amount st = []"
  using assms by (simp add: ShiftWork_def ShiftWork_errors_def ShiftWork_selected_def)

theorem ShiftWork_nonpositive_witness:
  "(- 1::int) \<le> 0 \<and>
   ShiftWork ex_worker (- 1) ex_store = ([], ex_worker, ex_store) \<and>
   ShiftWork_errors ex_worker (- 1) ex_store = []"
proof -
  have h: "(- 1::int) \<le> 0" by simp
  from ShiftWork_nonpositive [OF h, of ex_worker ex_store] h show ?thesis by simp
qed

text \<open>
  C9. For \<open>0 < n \<le> Size()\<close>, when every removal of \<open>ShiftWork(n)\<close> and every addition of
  the following \<open>UnshiftWork\<close> of its result succeeds, \<open>Size()\<close> is back at its value
  before the shift.
\<close>

theorem Shift_Unshift_roundtrip:
  assumes "0 < n" "n \<le> ChildCache_Size (Children w)"
    and "ShiftWork w n st = (removed, w', st')"
    and "\<forall>e\<in>set (ShiftWork_errors w n st). e = None"
    and "UnshiftWork w' removed st' = (w'', st'')"
    and "\<forall>e\<in>set (UnshiftWork_errors w' removed st'). e = None"
  shows "ChildCache_Size (Children w'') = ChildCache_Size (Children w)"
proof -
  let ?sel = "take (nat n) (children (Children w))"
  have sel: "ShiftWork_selected w n = ?sel"
    using assms(1,2) by (simp add: ShiftWork_selected_def ChildCache_ToSlice_def)
  from ShiftWork_returns_selected [of w n st] assms(3) sel
  have r: "removed = ?sel" by simp
  obtain r1 cc1 st1 where loop: "ShiftWork_loop ?sel [] (Children w) st = (r1, cc1, st1)"
    by (cases "ShiftWork_loop ?sel [] (Children w) st") auto
  with assms(1,2,3) have w': "w' = w\<lparr>Children := cc1\<rparr>"
    by (auto simp: ShiftWork_def ChildCache_ToSlice_def)
  have a: "\<forall>e\<in>set (Remove_errors ?sel (Children w) st). e = None"
    using assms(4) sel by (simp add: ShiftWork_errors_def)
  have b: "children (Children w) = ?sel @ drop (nat n) (children (Children w))"
    by simp
  from ShiftWork_loop_all_ok [OF a b loop] w'
  have c: "children (Children w') = drop (nat n) (children (Children w))"
    by simp
  have len: "length (Add_errors removed (Children w') st') = length removed"
    by (rule Add_errors_length)
  from assms(6) have ok: "\<forall>e\<in>set (Add_errors removed (Children w') st'). e = None"
    by (simp add: UnshiftWork_errors_def)
  from succeeded_all [OF len ok]
  have s: "succeeded removed (Add_errors removed (Children w') st') = removed" .
  from assms(5) have "Children w'' = fst (UnshiftWork_loop removed (Children w') st')"
    by (cases "UnshiftWork_loop removed (Children w') st'") (auto simp: UnshiftWork_def)
  with UnshiftWork_loop_children [of removed "Children w'" st'] s
  have "children (Children w'') = children (Children w') @ removed"
    by simp
  with c r have "children (Children w'') = drop (nat n) (children (Children w)) @ ?sel"
    by simp
  then have "length (children (Children w'')) = length (children (Children w))"
    by simp
  then show ?thesis by (simp add: ChildCache_Size_def)
qed

theorem Shift_Unshift_roundtrip_witness:
  "(0::int) < 2 \<and> 2 \<le> ChildCache_Size (Children ex_worker) \<and>
   ShiftWork_errors ex_worker 2 ex_store = [None, None] \<and>
   UnshiftWork_errors (fst (snd (ShiftWork ex_worker 2 ex_store)))
     (fst (ShiftWork ex_worker 2 ex_store)) (snd (snd (ShiftWork ex_worker 2 ex_store))) =
     [None, None] \<and>
   ChildCache_Size (Children (fst (UnshiftWork (fst (snd (ShiftWork ex_worker 2 ex_store)))
     (fst (ShiftWork ex_worker 2 ex_store)) (snd (snd (ShiftWork ex_worker 2 ex_store)))))) =
     ChildCache_Size (Children ex_worker)"
proof -
  let ?r = "ShiftWork ex_worker 2 ex_store"
  let ?u = "UnshiftWork (fst (snd ?r)) (fst ?r) (snd (snd ?r))"
  have h1: "(0::int) < 2" by simp
  have h2: "2 \<le> ChildCache_Size (Children ex_worker)"
    by (simp add: ex_defs ChildCache_Size_def)
  have h3: "?r = (fst ?r, fst (snd ?r), snd (snd ?r))" by simp
  have e4: "ShiftWork_errors ex_worker 2 ex_store = [None, None]"
    by (simp add: ex_defs run_defs)
  then have h4: "\<forall>e\<in>set (ShiftWork_errors ex_worker 2 ex_store). e = None" by simp
  have h5: "?u = (fst ?u, snd ?u)" by simp
  have e6: "UnshiftWork_errors (fst (snd ?r)) (fst ?r) (snd (snd ?r)) = [None, None]"
    by (simp add: ex_defs run_defs)
  then have h6: "\<forall>e\<in>set (UnshiftWork_errors (fst (snd ?r)) (fst ?r) (snd (snd ?r))). e = None"
    by simp
  from Shift_Unshift_roundtrip [OF h1 h2 h3 h4 h5 h6] h1 h2 e4 e6 show ?thesis by simp
qed

section \<open>Creation flags\<close>

text \<open>
  C10. The child cache of a \<open>Worker\<close> from \<open>NewWorker\<close> and of a \<open>Work\<close> from \<open>NewWork\<close>
  has the ephemeral creation flag, and after any history of \<open>Children.Add\<close> and
  \<open>Children.Remove\<close> calls a child created by a successful \<open>Children.Add\<close> is stored with
  that flag.
\<close>

theorem New_children_ephemeral:
  assumes "cc0 = Children (NewWorker c path) \<or> cc0 = WorkChildren (NewWork c path)"
    and "run_ops ops cc0 st0 = (cc, st)"
    and "ChildCache_Add cc node st = (None, cc', st')"
  shows "CreateFlags cc0 = FlagEphemeral \<and>
         nodes st' (Path node) = Some (Data node, FlagEphemeral)"
proof -
  from assms(1) have f0: "CreateFlags cc0 = FlagEphemeral"
    by (auto simp: NewWorker_def NewWork_def Let_def)
  from run_ops_flags [OF assms(2)] f0 have "CreateFlags cc = FlagEphemeral" by simp
  with ChildCache_Add_creates [OF assms(3)] f0 show ?thesis by simp
qed

theorem New_children_ephemeral_witness:
  "run_ops [OpAdd ex_work1, OpRemove ex_work1] (Children ex_worker2) ex_store =
     (Children ex_worker2, ex_store\<lparr>nodes := (nodes ex_store)(Path ex_work1 := None)\<rparr>) \<and>
   fst (ChildCache_Add (Children ex_worker2) ex_work1
          (ex_store\<lparr>nodes := (nodes ex_store)(Path ex_work1 := None)\<rparr>)) = None \<and>
   nodes (snd (snd (ChildCache_Add (Children ex_worker2) ex_work1
          (ex_store\<lparr>nodes := (nodes ex_store)(Path ex_work1 := None)\<rparr>)))) (Path ex_work1) =
     Some (Data ex_work1, FlagEphemeral)"
proof -
  let ?cc = "Children ex_worker2"
  let ?st = "ex_store\<lparr>nodes := (nodes ex_store)(Path ex_work1 := None)\<rparr>"
  let ?a = "ChildCache_Add ?cc ex_work1 ?st"
  have h1: "?cc = Children (NewWorker (Client 0) ''/workers/w2'') \<or>
            ?cc = WorkChildren (NewWork (Client 0) ''/workers/w2'')"
    by (simp add: ex_worker2_def)
  have h2: "run_ops [OpAdd ex_work1, OpRemove ex_work1] ?cc ex_store = (?cc, ?st)"
    by (simp add: ex_defs run_defs)
  have e3: "fst ?a = None"
    by (simp add: ex_defs run_defs)
  then have h3: "?a = (None, fst (snd ?a), snd (snd ?a))"
    by (metis prod.collapse)
  from New_children_ephemeral [OF h1 h2 h3] h2 e3 show ?thesis by simp
qed

end
